theory Spec2Isabelle
  imports Complex_Main
begin

section \<open>JavaScript Numbers\<close>

text \<open>
  The quiz computes with JavaScript Numbers. A Number is modelled as a real number, or one
  of the three non-finite values \<open>NaN\<close>, \<open>Infinity\<close> and \<open>-Infinity\<close>. Arithmetic on
  finite values is exact: the rounding of IEEE doubles is not modelled (except where
  \<^verbatim>\<open>parseInt\<close> turns an integer into a Number, see \<open>toNumber\<close>), and neither is
  the sign of zero (a zero divisor counts as \<open>+0\<close>, which is what sums and differences
  of this program produce).
\<close>

datatype number = NaN | PosInf | NegInf | Fin real

fun infOf :: "bool \<Rightarrow> number" where
  "infOf True = NegInf"
| "infOf False = PosInf"

fun negative :: "number \<Rightarrow> bool" where
  "negative (Fin x) = (x < 0)"
| "negative NegInf = True"
| "negative PosInf = False"
| "negative NaN = False"

text \<open>\<^verbatim>\<open>x + y\<close>\<close>

fun num_add :: "number \<Rightarrow> number \<Rightarrow> number" where
  "num_add (Fin x) (Fin y) = Fin (x + y)"
| "num_add NaN _ = NaN"
| "num_add _ NaN = NaN"
| "num_add PosInf NegInf = NaN"
| "num_add NegInf PosInf = NaN"
| "num_add PosInf _ = PosInf"
| "num_add _ PosInf = PosInf"
| "num_add NegInf _ = NegInf"
| "num_add _ NegInf = NegInf"

text \<open>\<^verbatim>\<open>x - y\<close>\<close>

fun num_sub :: "number \<Rightarrow> number \<Rightarrow> number" where
  "num_sub (Fin x) (Fin y) = Fin (x - y)"
| "num_sub NaN _ = NaN"
| "num_sub _ NaN = NaN"
| "num_sub PosInf PosInf = NaN"
| "num_sub NegInf NegInf = NaN"
| "num_sub PosInf _ = PosInf"
| "num_sub _ PosInf = NegInf"
| "num_sub NegInf _ = NegInf"
| "num_sub _ NegInf = PosInf"

text \<open>\<^verbatim>\<open>x * y\<close>: a product with an infinite factor is \<open>NaN\<close> when the other factor is zero.\<close>

fun num_mul :: "number \<Rightarrow> number \<Rightarrow> number" where
  "num_mul (Fin x) (Fin y) = Fin (x * y)"
| "num_mul NaN _ = NaN"
| "num_mul _ NaN = NaN"
| "num_mul x y =
     (if x = Fin 0 \<or> y = Fin 0 then NaN else infOf (negative x \<noteq> negative y))"

text \<open>\<^verbatim>\<open>x / y\<close>: division by zero gives an infinity, and \<open>NaN\<close> for \<open>0 / 0\<close>.\<close>

fun num_div :: "number \<Rightarrow> number \<Rightarrow> number" where
  "num_div (Fin x) (Fin y) =
     (if y = 0 then (if x = 0 then NaN else infOf (x < 0)) else Fin (x / y))"
| "num_div NaN _ = NaN"
| "num_div _ NaN = NaN"
| "num_div (Fin x) _ = Fin 0"
| "num_div x (Fin y) = infOf (negative x \<noteq> (y < 0))"
| "num_div _ _ = NaN"

text \<open>\<^verbatim>\<open>x < y\<close> and \<^verbatim>\<open>x > y\<close>: every comparison with \<open>NaN\<close> is false.\<close>

fun num_lt :: "number \<Rightarrow> number \<Rightarrow> bool" where
  "num_lt (Fin x) (Fin y) = (x < y)"
| "num_lt NaN _ = False"
| "num_lt _ NaN = False"
| "num_lt _ NegInf = False"
| "num_lt PosInf _ = False"
| "num_lt _ _ = True"

definition num_gt :: "number \<Rightarrow> number \<Rightarrow> bool" where
  "num_gt x y = num_lt y x"

text \<open>\<^verbatim>\<open>x === y\<close>, also the test of a \<^verbatim>\<open>case\<close> label: \<open>NaN\<close> equals nothing.\<close>

definition strict_eq :: "number \<Rightarrow> number \<Rightarrow> bool" where
  "strict_eq x y = (x \<noteq> NaN \<and> y \<noteq> NaN \<and> x = y)"

text \<open>\<^verbatim>\<open>Math.max\<close> and \<^verbatim>\<open>Math.min\<close> of the arguments in the list.\<close>

definition max2 :: "number \<Rightarrow> number \<Rightarrow> number" where
  "max2 x y = (if x = NaN \<or> y = NaN then NaN else if num_lt x y then y else x)"

definition min2 :: "number \<Rightarrow> number \<Rightarrow> number" where
  "min2 x y = (if x = NaN \<or> y = NaN then NaN else if num_lt y x then y else x)"

definition Math_max :: "number list \<Rightarrow> number" where
  "Math_max xs = foldl max2 NegInf xs"

definition Math_min :: "number list \<Rightarrow> number" where
  "Math_min xs = foldl min2 PosInf xs"

fun Math_abs :: "number \<Rightarrow> number" where
  "Math_abs (Fin x) = Fin \<bar>x\<bar>"
| "Math_abs NaN = NaN"
| "Math_abs _ = PosInf"

fun Math_sqrt :: "number \<Rightarrow> number" where
  "Math_sqrt (Fin x) = (if x < 0 then NaN else Fin (sqrt x))"
| "Math_sqrt PosInf = PosInf"
| "Math_sqrt _ = NaN"

text \<open>
  \<^verbatim>\<open>ToInt32\<close>, applied by \<^verbatim>\<open>>>\<close> and \<^verbatim>\<open>&\<close> to their operands: a non-finite Number is
  0, a finite one is truncated towards zero and wrapped into the signed 32-bit range.
\<close>

fun toInt32 :: "number \<Rightarrow> int" where
  "toInt32 (Fin x) =
     (let n = (if x < 0 then \<lceil>x\<rceil> else \<lfloor>x\<rfloor>); m = n mod 2 ^ 32
      in if 2 ^ 31 \<le> m then m - 2 ^ 32 else m)"
| "toInt32 _ = 0"

definition num :: "int \<Rightarrow> number" where
  "num n = Fin (of_int n)"

text \<open>\<^verbatim>\<open>x >> k\<close> (sign-propagating) and \<^verbatim>\<open>x & y\<close> on 32-bit integers.\<close>

definition shr :: "number \<Rightarrow> nat \<Rightarrow> number" where
  "shr x k = num (toInt32 x div 2 ^ (k mod 32))"

definition band :: "number \<Rightarrow> number \<Rightarrow> number" where
  "band x y = num (and (toInt32 x) (toInt32 y))"

section \<open>Strings\<close>

text \<open>
  A string is a list of code units below 256, read through their codes (\<open>of_char\<close>):
  ASCII, which the quiz's colour codes and typed answers are made of, and the rest of
  Latin-1. Changing the case touches the ASCII letters only.
\<close>

definition code :: "char \<Rightarrow> nat" where
  "code c = of_char c"

text \<open>The digit of \<^verbatim>\<open>Number.prototype.toString(16)\<close> for a value below 16: lower case.\<close>

definition hexDigit :: "nat \<Rightarrow> char" where
  "hexDigit d = char_of (if d < 10 then 48 + d else 87 + d)"

fun hexDigits :: "nat \<Rightarrow> string" where
  "hexDigits n = (if n < 16 then [hexDigit n] else hexDigits (n div 16) @ [hexDigit (n mod 16)])"

declare hexDigits.simps [simp del]

text \<open>\<^verbatim>\<open>n.toString(16)\<close> of an integer.\<close>

definition toString16 :: "int \<Rightarrow> string" where
  "toString16 n = (if n < 0 then CHR ''-'' # hexDigits (nat (- n)) else hexDigits (nat n))"

text \<open>\<^verbatim>\<open>s.padStart(n, c)\<close> with a one-character filler.\<close>

definition padStart :: "nat \<Rightarrow> char \<Rightarrow> string \<Rightarrow> string" where
  "padStart n c s = replicate (n - length s) c @ s"

definition upperChar :: "char \<Rightarrow> char" where
  "upperChar c = (if 97 \<le> code c \<and> code c \<le> 122 then char_of (code c - 32) else c)"

definition lowerChar :: "char \<Rightarrow> char" where
  "lowerChar c = (if 65 \<le> code c \<and> code c \<le> 90 then char_of (code c + 32) else c)"

definition toUpperCase :: "string \<Rightarrow> string" where
  "toUpperCase s = map upperChar s"

definition toLowerCase :: "string \<Rightarrow> string" where
  "toLowerCase s = map lowerChar s"

text \<open>
  The Number of an integer given by its sign and magnitude: the nearest double, the even
  one of two nearest, and an infinity from \<open>2 ^ 1024\<close> on. A magnitude below
  \<open>2 ^ 53\<close> is kept as it is.
\<close>

fun bitLength :: "nat \<Rightarrow> nat" where
  "bitLength n = (if n = 0 then 0 else Suc (bitLength (n div 2)))"

declare bitLength.simps [simp del]

definition toNumber :: "bool \<Rightarrow> nat \<Rightarrow> number" where
  "toNumber neg m =
     (let e = bitLength m - 53;
          q = m div 2 ^ e;
          r = m mod 2 ^ e;
          up = (2 ^ e < 2 * r \<or> (2 * r = 2 ^ e \<and> odd q));
          v = (if up then q + 1 else q) * 2 ^ e
      in if 2 ^ 1024 \<le> v then infOf neg
         else if neg then num (- int v) else num (int v))"

text \<open>
  \<^verbatim>\<open>parseInt(s, 16)\<close>: leading white space is skipped (of the code units below 256
  these are tab, line feed, vertical tab, form feed, carriage return, space and the
  no-break space), then a sign, then a \<^verbatim>\<open>0x\<close> or \<^verbatim>\<open>0X\<close> prefix; the longest run of
  hexadecimal digits that follows is the value, and the result is \<open>NaN\<close> when that run
  is empty.
\<close>

definition isSpace :: "char \<Rightarrow> bool" where
  "isSpace c = (code c \<in> {9, 10, 11, 12, 13, 32, 160})"

definition digitVal :: "char \<Rightarrow> nat option" where
  "digitVal c =
     (let k = code c in
      if 48 \<le> k \<and> k \<le> 57 then Some (k - 48)
      else if 97 \<le> k \<and> k \<le> 102 then Some (k - 87)
      else if 65 \<le> k \<and> k \<le> 70 then Some (k - 55)
      else None)"

definition isHexDigit :: "char \<Rightarrow> bool" where
  "isHexDigit c = (digitVal c \<noteq> None)"

definition digitsValue :: "string \<Rightarrow> nat" where
  "digitsValue z = foldl (\<lambda>acc c. 16 * acc + the (digitVal c)) 0 z"

definition stripSign :: "string \<Rightarrow> bool \<times> string" where
  "stripSign s =
     (case s of
        c # cs \<Rightarrow> if c = CHR ''-'' then (True, cs) else if c = CHR ''+'' then (False, cs)
                  else (False, s)
      | [] \<Rightarrow> (False, s))"

definition stripPrefix :: "string \<Rightarrow> string" where
  "stripPrefix s =
     (case s of
        c # x # cs \<Rightarrow> if c = CHR ''0'' \<and> (x = CHR ''x'' \<or> x = CHR ''X'') then cs else s
      | _ \<Rightarrow> s)"

definition parseInt16 :: "string \<Rightarrow> number" where
  "parseInt16 s =
     (let (neg, t) = stripSign (dropWhile isSpace s);
          z = takeWhile isHexDigit (stripPrefix t)
      in if z = [] then NaN else toNumber neg (digitsValue z))"

section \<open>Colour conversion\<close>

text \<open>\<^verbatim>\<open>hexToRgb(hex)\<close>; \<^verbatim>\<open>hex.slice(1)\<close> drops the first character.\<close>

definition hexToRgb :: "string \<Rightarrow> number list" where
  "hexToRgb hex =
     (let bigint = parseInt16 (drop 1 hex);
          r = band (shr bigint 16) (Fin 255);
          g = band (shr bigint 8) (Fin 255);
          b = band bigint (Fin 255)
      in [r, g, b])"

text \<open>
  The formatting half of \<^verbatim>\<open>generateRandomColor\<close>: the colour code of the integers
  \<open>r\<close>, \<open>g\<close>, \<open>b\<close>.
\<close>

definition hexOf :: "int \<Rightarrow> int \<Rightarrow> int \<Rightarrow> string" where
  "hexOf r g b =
     (let hexR = padStart 2 (CHR ''0'') (toString16 r);
          hexG = padStart 2 (CHR ''0'') (toString16 g);
          hexB = padStart 2 (CHR ''0'') (toString16 b)
      in toUpperCase (CHR ''#'' # hexR @ hexG @ hexB))"

text \<open>
  \<^verbatim>\<open>generateRandomColor()\<close>, with the three results of \<^verbatim>\<open>Math.random()\<close> as
  arguments (each at least 0 and below 1).
\<close>

definition generateRandomColor :: "real \<Rightarrow> real \<Rightarrow> real \<Rightarrow> string \<times> int \<times> int \<times> int" where
  "generateRandomColor u1 u2 u3 =
     (let r = \<lfloor>u1 * 256\<rfloor>; g = \<lfloor>u2 * 256\<rfloor>; b = \<lfloor>u3 * 256\<rfloor>
      in (hexOf r g b, r, g, b))"

text \<open>
  \<^verbatim>\<open>rgbToHsl(r, g, b)\<close>. When no \<^verbatim>\<open>case\<close> label matches, \<open>h\<close> stays undefined and
  \<^verbatim>\<open>h /= 6\<close> makes it \<open>NaN\<close>.
\<close>

definition rgbToHsl :: "number \<Rightarrow> number \<Rightarrow> number \<Rightarrow> number list" where
  "rgbToHsl r0 g0 b0 =
     (let r = num_div r0 (Fin 255);
          g = num_div g0 (Fin 255);
          b = num_div b0 (Fin 255);
          max' = Math_max [r, g, b];
          min' = Math_min [r, g, b];
          l = num_div (num_add max' min') (Fin 2)
      in if strict_eq max' min'
         then [num_mul (Fin 0) (Fin 360), num_mul (Fin 0) (Fin 100), num_mul l (Fin 100)]
         else
           let d = num_sub max' min';
               s = (if num_gt l (Fin 0.5) then num_div d (num_sub (num_sub (Fin 2) max') min')
                    else num_div d (num_add max' min'));
               h = (if strict_eq max' r
                    then num_add (num_div (num_sub g b) d) (if num_lt g b then Fin 6 else Fin 0)
                    else if strict_eq max' g then num_add (num_div (num_sub b r) d) (Fin 2)
                    else if strict_eq max' b then num_add (num_div (num_sub r g) d) (Fin 4)
                    else NaN);
               h6 = num_div h (Fin 6)
           in [num_mul h6 (Fin 360), num_mul s (Fin 100), num_mul l (Fin 100)])"

section \<open>The quiz session and its score\<close>

text \<open>
  A question is the object \<^verbatim>\<open>{ hex, r, g, b }\<close> that \<^verbatim>\<open>setupQuestions\<close> stores; its
  components are the integers that \<^verbatim>\<open>Math.floor\<close> returned.
\<close>

record question =
  q_hex :: string
  q_r :: int
  q_g :: int
  q_b :: int

definition mkQuestion :: "string \<times> int \<times> int \<times> int \<Rightarrow> question" where
  "mkQuestion c = (case c of (hex, r, g, b) \<Rightarrow> \<lparr>q_hex = hex, q_r = r, q_g = g, q_b = b\<rparr>)"

text \<open>A question as \<^verbatim>\<open>generateRandomColor\<close> makes it: three bytes and their colour code.\<close>

definition generated :: "question \<Rightarrow> bool" where
  "generated q =
     (0 \<le> q_r q \<and> q_r q \<le> 255 \<and> 0 \<le> q_g q \<and> q_g q \<le> 255 \<and> 0 \<le> q_b q \<and> q_b q \<le> 255
      \<and> q_hex q = hexOf (q_r q) (q_g q) (q_b q))"

text \<open>The three accumulators of \<^verbatim>\<open>calculateScore\<close>.\<close>

record totals =
  totalRgbError :: "number list"
  totalHslError :: "number list"
  squaredErrors :: "number list"

record scoreReport =
  avgRgbError :: "number list"
  avgHslError :: "number list"
  rmse :: number

datatype error = TypeError

text \<open>
  The error of channel \<open>j\<close> between the two HSL triples (lines 144 to 152): the shorter way
  round the circle for the hue, the signed difference for saturation and lightness.
\<close>

definition hslError :: "nat \<Rightarrow> number list \<Rightarrow> number list \<Rightarrow> number" where
  "hslError j userAnswerHsl correctAnswerHsl =
     (if j = 0 then
        let diff = Math_abs (num_sub (userAnswerHsl ! j) (correctAnswerHsl ! j));
            shortestDiff = Math_min [diff, num_sub (Fin 360) diff]
        in num_div shortestDiff (Fin 180)
      else num_div (num_sub (userAnswerHsl ! j) (correctAnswerHsl ! j)) (Fin 100))"

text \<open>The body of the inner loop, for channel \<open>j\<close>.\<close>

definition channelStep ::
  "number list \<Rightarrow> number list \<Rightarrow> number list \<Rightarrow> number list \<Rightarrow> totals \<Rightarrow> nat \<Rightarrow> totals" where
  "channelStep userAnswerRgb correctAnswerRgb userAnswerHsl correctAnswerHsl t j =
     (let rgbError = num_div (num_sub (userAnswerRgb ! j) (correctAnswerRgb ! j)) (Fin 255);
          e = hslError j userAnswerHsl correctAnswerHsl
      in \<lparr>totalRgbError = (totalRgbError t)[j := num_add (totalRgbError t ! j) rgbError],
          totalHslError = (totalHslError t)[j := num_add (totalHslError t ! j) e],
          squaredErrors = squaredErrors t @ [num_mul rgbError rgbError]\<rparr>)"

text \<open>
  The body of the outer loop for one question and the value of its input field: an empty
  value is falsy, so \<^verbatim>\<open>value || "000000"\<close> is \<^verbatim>\<open>"000000"\<close> then. The inner loop runs
  \<open>j\<close> through 0, 1, 2.
\<close>

definition questionBody :: "question \<Rightarrow> string \<Rightarrow> totals \<Rightarrow> totals" where
  "questionBody q answer t =
     (let correctAnswerRgb = [num (q_r q), num (q_g q), num (q_b q)];
          userAnswerHex = ''#'' @ (if answer = [] then ''000000'' else answer);
          userAnswerRgb = hexToRgb userAnswerHex;
          correctAnswerHsl =
            rgbToHsl (correctAnswerRgb ! 0) (correctAnswerRgb ! 1) (correctAnswerRgb ! 2);
          userAnswerHsl = rgbToHsl (userAnswerRgb ! 0) (userAnswerRgb ! 1) (userAnswerRgb ! 2)
      in foldl (channelStep userAnswerRgb correctAnswerRgb userAnswerHsl correctAnswerHsl) t
           [0, 1, 2])"

text \<open>
  Reading \<^verbatim>\<open>questions[i].r\<close> past the end of the array, or the value of an input field
  that does not exist, throws a TypeError.
\<close>

definition questionStep :: "question list \<Rightarrow> string list \<Rightarrow> totals \<Rightarrow> nat \<Rightarrow> error + totals" where
  "questionStep questions answers t i =
     (if i < length questions \<and> i < length answers
      then Inr (questionBody (questions ! i) (answers ! i) t)
      else Inl TypeError)"

function scoreLoop ::
  "nat \<Rightarrow> question list \<Rightarrow> string list \<Rightarrow> nat \<Rightarrow> totals \<Rightarrow> error + totals" where
  "scoreLoop numQuestions questions answers i t =
     (if i < numQuestions
      then (case questionStep questions answers t i of
              Inl e \<Rightarrow> Inl e
            | Inr t' \<Rightarrow> scoreLoop numQuestions questions answers (Suc i) t')
      else Inr t)"
  by pat_completeness auto
termination
  by (relation "measure (\<lambda>(numQuestions, questions, answers, i, t). numQuestions - i)") auto

declare scoreLoop.simps [simp del]

text \<open>
  \<^verbatim>\<open>calculateScore()\<close>, with the globals \<open>numQuestions\<close> (10 on the page) and
  \<open>questions\<close> and the values of the input fields as arguments. The result is the three
  figures that the function then writes to the page.
\<close>

definition calculateScore :: "nat \<Rightarrow> question list \<Rightarrow> string list \<Rightarrow> error + scoreReport" where
  "calculateScore numQuestions questions answers =
     (case scoreLoop numQuestions questions answers 0
             \<lparr>totalRgbError = [Fin 0, Fin 0, Fin 0], totalHslError = [Fin 0, Fin 0, Fin 0],
              squaredErrors = []\<rparr> of
        Inl e \<Rightarrow> Inl e
      | Inr t \<Rightarrow>
          let meanSquaredError =
                num_div (foldl (\<lambda>sum error. num_add sum error) (Fin 0) (squaredErrors t))
                  (Fin (real (length (squaredErrors t))))
          in Inr \<lparr>avgRgbError =
                     map (\<lambda>error. num_mul (num_div error (Fin (real numQuestions))) (Fin 100))
                       (totalRgbError t),
                   avgHslError =
                     map (\<lambda>error. num_mul (num_div error (Fin (real numQuestions))) (Fin 100))
                       (totalHslError t),
                   rmse = num_mul (Math_sqrt meanSquaredError) (Fin 100)\<rparr>)"

text \<open>
  \<^verbatim>\<open>x.toFixed(f)\<close> prints the decimal digits of the integer \<open>n\<close> for which \<open>n / 10 ^ f\<close>
  is nearest to \<open>x\<close>, the larger one of two; a negative \<open>x\<close> is printed as the negated
  result for \<open>- x\<close>. This is that integer, for a finite \<open>x\<close>.
\<close>

definition toFixed :: "nat \<Rightarrow> real \<Rightarrow> int" where
  "toFixed f x = (if x < 0 then - \<lfloor>- x * 10 ^ f + 1 / 2\<rfloor> else \<lfloor>x * 10 ^ f + 1 / 2\<rfloor>)"

section \<open>Auxiliary notions for the statements\<close>

text \<open>The upper-case hexadecimal digit of a value below 16, as it stands in a colour code.\<close>

definition upperDigit :: "nat \<Rightarrow> char" where
  "upperDigit d = upperChar (hexDigit d)"

text \<open>
  The conversion of a chromatic colour in the words of the specification, on real numbers:
  the channels are normalised to the unit interval, the lightness is the mean of the
  largest and the smallest channel, the saturation is \<open>delta / (2 - max - min)\<close> when the
  lightness exceeds one half and \<open>delta / (max + min)\<close> otherwise, and the hue comes from
  the six-segment formula, where the largest channel is looked for among red, green and
  blue in this order.
\<close>

definition rgbToHsl_spec :: "real \<Rightarrow> real \<Rightarrow> real \<Rightarrow> real list" where
  "rgbToHsl_spec r0 g0 b0 =
     (let r = r0 / 255; g = g0 / 255; b = b0 / 255;
          mx = max r (max g b); mn = min r (min g b);
          l = (mx + mn) / 2;
          delta = mx - mn;
          s = (if l > 1 / 2 then delta / (2 - mx - mn) else delta / (mx + mn));
          h = (if mx = r then (g - b) / delta + (if g < b then 6 else 0)
               else if mx = g then (b - r) / delta + 2
               else (r - g) / delta + 4)
      in [h / 6 * 360, s * 100, l * 100])"

text \<open>
  The pooled error of the specification, on real numbers: the colour the user gave (an
  empty answer read as \<^verbatim>\<open>000000\<close>), the three signed channel errors of a question
  divided by 255, the list of the squares of all of them over the first \<open>n\<close> questions,
  and the square root of the mean of that list, times 100.
\<close>

fun realOf :: "number \<Rightarrow> real" where
  "realOf (Fin x) = x"
| "realOf _ = 0"

definition userRgb :: "string \<Rightarrow> number list" where
  "userRgb answer = hexToRgb (''#'' @ (if answer = [] then ''000000'' else answer))"

definition rgbErrors :: "question \<Rightarrow> string \<Rightarrow> real list" where
  "rgbErrors q answer =
     map2 (\<lambda>u c. (realOf u - real_of_int c) / 255) (userRgb answer) [q_r q, q_g q, q_b q]"

definition pooledSquaredErrors :: "nat \<Rightarrow> question list \<Rightarrow> string list \<Rightarrow> real list" where
  "pooledSquaredErrors n questions answers =
     concat (map (\<lambda>i. map (\<lambda>e. e ^ 2) (rgbErrors (questions ! i) (answers ! i))) [0..<n])"

definition rmse_spec :: "nat \<Rightarrow> question list \<Rightarrow> string list \<Rightarrow> real" where
  "rmse_spec n questions answers =
     (let pooled = pooledSquaredErrors n questions answers
      in sqrt (sum_list pooled / real (length pooled)) * 100)"

section \<open>Integers that are Numbers exactly\<close>

lemma bitLength_le: "m < 2 ^ k \<Longrightarrow> bitLength m \<le> k"
proof (induction k arbitrary: m)
  case 0
  then show ?case by (simp add: bitLength.simps)
next
  case (Suc k)
  show ?case
  proof (cases "m = 0")
    case True
    then show ?thesis by (simp add: bitLength.simps)
  next
    case False
    have "m div 2 < 2 ^ k" using Suc.prems by simp
    then have "bitLength (m div 2) \<le> k" by (rule Suc.IH)
    then show ?thesis using False by (subst bitLength.simps) simp
  qed
qed

lemma toNumber_exact:
  assumes "m < 2 ^ 53"
  shows "toNumber neg m = (if neg then num (- int m) else num (int m))"
proof -
  have e: "bitLength m - 53 = 0" using bitLength_le [OF assms] by simp
  have "m < 2 ^ 1024" using assms by (rule order.strict_trans) simp
  then show ?thesis by (simp add: toNumber_def e Let_def)
qed

section \<open>Characters and hexadecimal digits\<close>

lemma code_char_of: "n < 256 \<Longrightarrow> code (char_of n) = n"
  by (simp add: code_def)

lemma char_eq_code: "c = d \<longleftrightarrow> code c = code d"
  by (auto simp: code_def)

lemma code_simps: "code CHR ''-'' = 45" "code CHR ''+'' = 43" "code CHR ''x'' = 120" "code CHR ''X'' = 88" "code CHR ''0'' = 48"
  "code CHR ''#'' = 35"
  by (simp_all add: code_def)

lemma hexDigits_small: "n < 16 \<Longrightarrow> hexDigits n = [hexDigit n]"
  by (simp add: hexDigits.simps)

lemma hexDigits_byte: "16 \<le> n \<Longrightarrow> n < 256 \<Longrightarrow> hexDigits n = [hexDigit (n div 16), hexDigit (n mod 16)]"
  by (subst hexDigits.simps) (simp add: hexDigits_small)

lemma code_upperDigit: "d < 16 \<Longrightarrow> code (upperDigit d) = (if d < 10 then 48 + d else 55 + d)"
  by (simp add: upperDigit_def upperChar_def hexDigit_def code_char_of)

lemma upperDigit_props:
  assumes "d < 16"
  shows "digitVal (upperDigit d) = Some d" "isHexDigit (upperDigit d)" "\<not> isSpace (upperDigit d)"
    "upperDigit d \<noteq> CHR ''-''" "upperDigit d \<noteq> CHR ''+''" "upperDigit d \<noteq> CHR ''x''" "upperDigit d \<noteq> CHR ''X''"
  using assms
  by (auto simp: digitVal_def Let_def isHexDigit_def isSpace_def code_upperDigit char_eq_code code_simps)

lemma hexDigit_0: "hexDigit 0 = CHR ''0''"
  by (simp add: char_eq_code hexDigit_def code_char_of code_simps)

lemma byte_format:
  assumes "0 \<le> r" "r \<le> 255"
  shows "toUpperCase (padStart 2 (CHR ''0'') (toString16 r)) =
           [upperDigit (nat r div 16), upperDigit (nat r mod 16)]"
proof (cases "nat r < 16")
  case True
  then have "nat r div 16 = 0" by simp
  moreover have "nat r mod 16 = nat r" using True by simp
  ultimately show ?thesis using assms True
    by (simp add: toString16_def hexDigits_small padStart_def toUpperCase_def upperDigit_def hexDigit_0)
next
  case False
  then have "hexDigits (nat r) = [hexDigit (nat r div 16), hexDigit (nat r mod 16)]"
    using assms by (intro hexDigits_byte) auto
  then show ?thesis using assms
    by (simp add: toString16_def padStart_def toUpperCase_def upperDigit_def)
qed

lemma upperChar_hash: "upperChar CHR ''#'' = CHR ''#''"
  by (simp add: upperChar_def code_simps)

lemma hexOf_digits:
  assumes "0 \<le> r" "r \<le> 255" "0 \<le> g" "g \<le> 255" "0 \<le> b" "b \<le> 255"
  shows "hexOf r g b = CHR ''#'' # [upperDigit (nat r div 16), upperDigit (nat r mod 16),
           upperDigit (nat g div 16), upperDigit (nat g mod 16),
           upperDigit (nat b div 16), upperDigit (nat b mod 16)]"
proof -
  have "hexOf r g b = upperChar CHR ''#'' # toUpperCase (padStart 2 (CHR ''0'') (toString16 r))
      @ toUpperCase (padStart 2 (CHR ''0'') (toString16 g)) @ toUpperCase (padStart 2 (CHR ''0'') (toString16 b))"
    by (simp add: hexOf_def toUpperCase_def)
  then show ?thesis using assms by (simp add: byte_format upperChar_hash)
qed

lemma parseInt16_digits:
  assumes "d1 < 16" "d2 < 16" "d3 < 16" "d4 < 16" "d5 < 16" "d6 < 16"
  shows "parseInt16 [upperDigit d1, upperDigit d2, upperDigit d3, upperDigit d4, upperDigit d5, upperDigit d6]
    = num (int ((16 * d1 + d2) * 65536 + (16 * d3 + d4) * 256 + (16 * d5 + d6)))"
proof -
  let ?z = "[upperDigit d1, upperDigit d2, upperDigit d3, upperDigit d4, upperDigit d5, upperDigit d6]"
  let ?v = "(16 * d1 + d2) * 65536 + (16 * d3 + d4) * 256 + (16 * d5 + d6)"
  have v: "digitsValue ?z = ?v"
    using assms by (simp add: digitsValue_def upperDigit_props algebra_simps)
  have "?v < 2 ^ 53" using assms by simp
  then have "toNumber False ?v = num (int ?v)" by (simp add: toNumber_exact)
  then show ?thesis
    using assms
    by (simp add: parseInt16_def stripSign_def stripPrefix_def upperDigit_props v
        del: of_nat_add of_nat_mult)
qed

lemma toInt32_num: "0 \<le> n \<Longrightarrow> n < 2 ^ 31 \<Longrightarrow> toInt32 (num n) = n"
  by (simp add: num_def)

lemma and_255: "and (n::int) 255 = n mod 256"
proof -
  have "and n (mask 8) = take_bit 8 n" by (simp add: take_bit_eq_mask)
  then show ?thesis by (simp add: take_bit_eq_mod mask_eq_exp_minus_1)
qed

lemma toInt32_255: "toInt32 (Fin 255) = 255"
  by simp

lemma byte_arith:
  fixes r g b :: int
  assumes "0 \<le> r" "r \<le> 255" "0 \<le> g" "g \<le> 255" "0 \<le> b" "b \<le> 255"
  shows "(r * 65536 + g * 256 + b) div 65536 = r"
    and "(r * 65536 + g * 256 + b) div 256 = r * 256 + g"
    and "(r * 256 + g) mod 256 = g"
    and "(r * 65536 + g * 256 + b) mod 256 = b"
proof -
  show "(r * 65536 + g * 256 + b) div 65536 = r" using assms by simp
  show "(r * 65536 + g * 256 + b) div 256 = r * 256 + g" using assms by simp
  show "(r * 256 + g) mod 256 = g" using assms by simp
  have "r * 65536 + g * 256 + b = 256 * (r * 256 + g) + b" by simp
  then show "(r * 65536 + g * 256 + b) mod 256 = b" using assms
    by (simp only: mod_mult_self4) simp
qed

lemma bytes_of:
  assumes "0 \<le> r" "r \<le> 255" "0 \<le> g" "g \<le> 255" "0 \<le> b" "b \<le> 255"
  shows "band (shr (num (r * 65536 + g * 256 + b)) 16) (Fin 255) = num r"
    and "band (shr (num (r * 65536 + g * 256 + b)) 8) (Fin 255) = num g"
    and "band (num (r * 65536 + g * 256 + b)) (Fin 255) = num b"
proof -
  let ?v = "r * 65536 + g * 256 + b"
  note ba = byte_arith [OF assms]
  have v: "0 \<le> ?v" "?v < 2 ^ 31" using assms by auto
  have s16: "toInt32 (num (?v div 2 ^ 16)) = r"
    using assms ba(1) by (simp add: toInt32_num del: toInt32.simps)
  have s8: "toInt32 (num (?v div 2 ^ 8)) = r * 256 + g"
    using assms ba(2) by (simp add: toInt32_num del: toInt32.simps)
  show "band (shr (num ?v) 16) (Fin 255) = num r"
    unfolding band_def shr_def toInt32_num [OF v] using s16 assms
    by (simp add: and_255 toInt32_255 del: toInt32.simps)
  show "band (shr (num ?v) 8) (Fin 255) = num g"
    unfolding band_def shr_def toInt32_num [OF v] using s8 ba(3)
    by (simp add: and_255 toInt32_255 del: toInt32.simps)
  show "band (num ?v) (Fin 255) = num b"
    unfolding band_def toInt32_num [OF v] using ba(4) by (simp add: and_255 toInt32_255 del: toInt32.simps)
qed

section \<open>Parsing a colour code gives back its bytes\<close>

lemma hexToRgb_hexOf_bytes:
  assumes "0 \<le> r" "r \<le> 255" "0 \<le> g" "g \<le> 255" "0 \<le> b" "b \<le> 255"
  shows "hexToRgb (hexOf r g b) = [num r, num g, num b]"
proof -
  have lt: "nat r div 16 < 16" "nat r mod 16 < 16" "nat g div 16 < 16" "nat g mod 16 < 16"
    "nat b div 16 < 16" "nat b mod 16 < 16"
    using assms by auto
  have "int ((16 * (nat r div 16) + nat r mod 16) * 65536 + (16 * (nat g div 16) + nat g mod 16) * 256
     + (16 * (nat b div 16) + nat b mod 16)) = r * 65536 + g * 256 + b"
    using assms by simp
  then have "parseInt16 (drop 1 (hexOf r g b)) = num (r * 65536 + g * 256 + b)"
    using assms lt by (simp add: hexOf_digits parseInt16_digits del: of_nat_add of_nat_mult)
  then show ?thesis using assms
    by (simp add: hexToRgb_def bytes_of Let_def)
qed

text \<open>
  C1. \<^verbatim>\<open>hexToRgb\<close> inverts the formatting half of \<^verbatim>\<open>generateRandomColor\<close>: for all
  integers \<open>r\<close>, \<open>g\<close>, \<open>b\<close> from 0 to 255, parsing the upper-case, zero-padded code
  \<^verbatim>\<open>#RRGGBB\<close> built from them returns exactly \<open>[r, g, b]\<close>.
\<close>

theorem hexToRgb_hexOf:
  assumes "0 \<le> r" "r \<le> 255" "0 \<le> g" "g \<le> 255" "0 \<le> b" "b \<le> 255"
  shows "hexToRgb (hexOf r g b) = [num r, num g, num b]"
  using assms by (rule hexToRgb_hexOf_bytes)

theorem hexToRgb_hexOf_witness:
  "(0::int) \<le> 255 \<and> (0::int) \<le> 10 \<and> (10::int) \<le> 255
   \<and> hexToRgb (hexOf 255 0 10) = [num 255, num 0, num 10]"
  using hexToRgb_hexOf [of 255 0 10] by simp

section \<open>From RGB to HSL\<close>

lemma max2_Fin: "max2 (Fin x) (Fin y) = Fin (max x y)" "max2 NegInf (Fin x) = Fin x"
  by (auto simp: max2_def)

lemma min2_Fin: "min2 (Fin x) (Fin y) = Fin (min x y)" "min2 PosInf (Fin x) = Fin x"
  by (auto simp: min2_def)

lemma Math_max3: "Math_max [Fin x, Fin y, Fin z] = Fin (max x (max y z))"
  by (simp add: Math_max_def max2_Fin max.assoc)

lemma Math_min3: "Math_min [Fin x, Fin y, Fin z] = Fin (min x (min y z))"
  by (simp add: Math_min_def min2_Fin min.assoc)

lemma Math_min2: "Math_min [Fin x, Fin y] = Fin (min x y)"
  by (simp add: Math_min_def min2_Fin)

lemma rgbToHsl_gray:
  "rgbToHsl (Fin x) (Fin x) (Fin x) = [Fin 0, Fin 0, Fin (x / 255 * 100)]"
  by (simp add: rgbToHsl_def Math_max3 Math_min3 strict_eq_def)

lemma rgbToHsl_chromatic:
  assumes "0 \<le> r0" "r0 \<le> 255" "0 \<le> g0" "g0 \<le> 255" "0 \<le> b0" "b0 \<le> 255"
    and ne: "max r0 (max g0 b0) \<noteq> min r0 (min g0 b0)"
  shows "rgbToHsl (Fin r0) (Fin g0) (Fin b0) = map Fin (rgbToHsl_spec r0 g0 b0)"
proof -
  define r g b where "r = r0 / 255" and "g = g0 / 255" and "b = b0 / 255"
  define mx mn where "mx = max r (max g b)" and "mn = min r (min g b)"
  have rng: "0 \<le> r" "r \<le> 1" "0 \<le> g" "g \<le> 1" "0 \<le> b" "b \<le> 1"
    using assms by (auto simp: r_def g_def b_def)
  have "mx \<noteq> mn" using ne by (auto simp: mx_def mn_def r_def g_def b_def max_def min_def split: if_splits)
  moreover have "mn \<le> mx" "0 \<le> mn" "mx \<le> 1" using rng by (auto simp: mx_def mn_def)
  ultimately have d: "mx - mn \<noteq> 0" "mx + mn \<noteq> 0" "(mx + mn) / 2 > 1 / 2 \<Longrightarrow> 2 - mx - mn \<noteq> 0"
    by auto
  have mxc: "mx = r \<or> mx = g \<or> mx = b" by (auto simp: mx_def max_def)
  have "rgbToHsl (Fin r0) (Fin g0) (Fin b0) =
    (let l = (mx + mn) / 2; delta = mx - mn;
          s = (if l > 1 / 2 then delta / (2 - mx - mn) else delta / (mx + mn));
          h = (if mx = r then (g - b) / delta + (if g < b then 6 else 0)
               else if mx = g then (b - r) / delta + 2
               else (r - g) / delta + 4)
      in [Fin (h / 6 * 360), Fin (s * 100), Fin (l * 100)])"
    unfolding rgbToHsl_def Let_def
    using d mxc \<open>mx \<noteq> mn\<close>
    apply (simp add: Math_max3 Math_min3 strict_eq_def num_gt_def
        r_def [symmetric] g_def [symmetric] b_def [symmetric] mx_def [symmetric] mn_def [symmetric])
    apply (auto simp: field_simps)
    done
  then show ?thesis
    by (simp add: rgbToHsl_spec_def Let_def r_def g_def b_def mx_def mn_def)
qed


lemma quotient_bounds:
  fixes x d :: real
  assumes "0 < d" "- d \<le> x" "x \<le> d"
  shows "- 1 \<le> x / d" "x / d \<le> 1"
  using assms by (simp_all add: field_simps)

lemma rgbToHsl_spec_range:
  assumes "0 \<le> r0" "r0 \<le> 255" "0 \<le> g0" "g0 \<le> 255" "0 \<le> b0" "b0 \<le> 255"
    and ne: "max r0 (max g0 b0) \<noteq> min r0 (min g0 b0)"
  obtains h s l where "rgbToHsl_spec r0 g0 b0 = [h, s, l]"
    "0 \<le> h" "h < 360" "0 \<le> s" "s \<le> 100" "0 \<le> l" "l \<le> 100"
proof -
  define r g b where "r = r0 / 255" and "g = g0 / 255" and "b = b0 / 255"
  define mx mn where "mx = max r (max g b)" and "mn = min r (min g b)"
  define d where "d = mx - mn"
  define l where "l = (mx + mn) / 2"
  define s where "s = (if l > 1 / 2 then d / (2 - mx - mn) else d / (mx + mn))"
  define h where "h = (if mx = r then (g - b) / d + (if g < b then 6 else 0)
               else if mx = g then (b - r) / d + 2
               else (r - g) / d + 4)"
  have eq: "rgbToHsl_spec r0 g0 b0 = [h / 6 * 360, s * 100, l * 100]"
    by (simp add: rgbToHsl_spec_def Let_def r_def g_def b_def mx_def mn_def d_def l_def s_def h_def)
  have rng: "0 \<le> r" "r \<le> 1" "0 \<le> g" "g \<le> 1" "0 \<le> b" "b \<le> 1"
    using assms by (auto simp: r_def g_def b_def)
  have "mx \<noteq> mn"
    using ne by (auto simp: mx_def mn_def r_def g_def b_def max_def min_def split: if_splits)
  moreover have le: "mn \<le> mx" "0 \<le> mn" "mx \<le> 1" using rng by (auto simp: mx_def mn_def)
  ultimately have dpos: "0 < d" by (simp add: d_def)
  have mxs: "r \<le> mx" "g \<le> mx" "b \<le> mx" by (auto simp: mx_def)
  have mns: "mn \<le> r" "mn \<le> g" "mn \<le> b" by (auto simp: mn_def)
  have mxc: "mx = r \<or> mx = g \<or> mx = b" by (auto simp: mx_def max_def)
  have l: "0 \<le> l" "l \<le> 1" using le by (auto simp: l_def)
  have s: "0 \<le> s" "s \<le> 1"
  proof -
    show "0 \<le> s" using dpos le by (auto simp: s_def l_def d_def)
    show "s \<le> 1"
    proof (cases "l > 1 / 2")
      case True
      then have "0 < 2 - mx - mn" using dpos le by (auto simp: l_def d_def)
      moreover have "d \<le> 2 - mx - mn" using le by (simp add: d_def)
      ultimately show ?thesis using True by (simp add: s_def)
    next
      case False
      have "0 < mx + mn" using dpos le by (simp add: d_def)
      moreover have "d \<le> mx + mn" using le by (simp add: d_def)
      ultimately show ?thesis using False by (simp add: s_def)
    qed
  qed
  have h: "0 \<le> h" "h < 6"
  proof -
    have gb: "- 1 \<le> (g - b) / d" "(g - b) / d \<le> 1"
      using quotient_bounds [OF dpos, of "g - b"] mxs mns by (auto simp: d_def)
    have br: "- 1 \<le> (b - r) / d" "(b - r) / d \<le> 1"
      using quotient_bounds [OF dpos, of "b - r"] mxs mns by (auto simp: d_def)
    have rg: "- 1 \<le> (r - g) / d" "(r - g) / d \<le> 1"
      using quotient_bounds [OF dpos, of "r - g"] mxs mns by (auto simp: d_def)
    have neg: "g < b \<Longrightarrow> (g - b) / d < 0" using dpos by (simp add: field_simps)
    have pos: "\<not> g < b \<Longrightarrow> 0 \<le> (g - b) / d" using dpos by simp
    show "0 \<le> h" using gb br rg pos by (auto simp: h_def)
    show "h < 6" using gb br rg neg by (auto simp: h_def)
  qed
  show thesis
  proof (rule that [OF eq])
    show "0 \<le> h / 6 * 360" "h / 6 * 360 < 360" using h by auto
    show "0 \<le> s * 100" "s * 100 \<le> 100" using s by auto
    show "0 \<le> l * 100" "l * 100 \<le> 100" using l by auto
  qed
qed

lemma rgbToHsl_finite_range:
  assumes "0 \<le> r" "r \<le> 255" "0 \<le> g" "g \<le> 255" "0 \<le> b" "b \<le> 255"
  shows "\<exists>h s l. rgbToHsl (Fin r) (Fin g) (Fin b) = [Fin h, Fin s, Fin l]
           \<and> 0 \<le> h \<and> h < 360 \<and> 0 \<le> s \<and> s \<le> 100 \<and> 0 \<le> l \<and> l \<le> 100"
proof (cases "max r (max g b) = min r (min g b)")
  case True
  then have "g = r" "b = r" by (auto simp: max_def min_def split: if_splits)
  then have "rgbToHsl (Fin r) (Fin g) (Fin b) = [Fin 0, Fin 0, Fin (r / 255 * 100)]"
    by (simp only: rgbToHsl_gray)
  moreover have "0 \<le> r / 255 * 100" "r / 255 * 100 \<le> 100" using assms by auto
  ultimately have "rgbToHsl (Fin r) (Fin g) (Fin b) = [Fin 0, Fin 0, Fin (r / 255 * 100)]
           \<and> (0::real) \<le> 0 \<and> (0::real) < 360 \<and> (0::real) \<le> 0 \<and> (0::real) \<le> 100
           \<and> 0 \<le> r / 255 * 100 \<and> r / 255 * 100 \<le> 100"
    by simp
  then show ?thesis by (intro exI)
next
  case False
  from rgbToHsl_spec_range [OF assms False] obtain h s l where
    *: "rgbToHsl_spec r g b = [h, s, l]" "0 \<le> h" "h < 360" "0 \<le> s" "s \<le> 100" "0 \<le> l" "l \<le> 100"
    by blast
  have "rgbToHsl (Fin r) (Fin g) (Fin b) = [Fin h, Fin s, Fin l]"
    unfolding rgbToHsl_chromatic [OF assms False] *(1) by simp
  with * have "rgbToHsl (Fin r) (Fin g) (Fin b) = [Fin h, Fin s, Fin l]
           \<and> 0 \<le> h \<and> h < 360 \<and> 0 \<le> s \<and> s \<le> 100 \<and> 0 \<le> l \<and> l \<le> 100"
    by simp
  then show ?thesis by (intro exI)
qed

text \<open>
  C4. For every chromatic input (largest channel different from the smallest) with \<open>r\<close>,
  \<open>g\<close>, \<open>b\<close> between 0 and 255, \<^verbatim>\<open>rgbToHsl\<close> computes what the specification
  describes: normalised channels, lightness \<open>(max + min) / 2\<close>, saturation
  \<open>delta / (2 - max - min)\<close> above lightness one half and \<open>delta / (max + min)\<close> otherwise,
  and the hue of the six-segment formula in degrees, with the largest channel looked for
  among red, green and blue in this order. Saturation and lightness are returned as
  percentages.
\<close>

theorem rgbToHsl_refines_spec:
  assumes "0 \<le> r" "r \<le> 255" "0 \<le> g" "g \<le> 255" "0 \<le> b" "b \<le> 255"
    and "max r (max g b) \<noteq> min r (min g b)"
  shows "rgbToHsl (Fin r) (Fin g) (Fin b) = map Fin (rgbToHsl_spec r g b)"
  using assms by (rule rgbToHsl_chromatic)

theorem rgbToHsl_refines_spec_witness:
  "max (255::real) (max 255 0) \<noteq> min 255 (min 255 0)
   \<and> rgbToHsl (Fin 255) (Fin 255) (Fin 0) = [Fin 60, Fin 100, Fin 50]
   \<and> rgbToHsl_spec 255 255 0 = [60, 100, 50]"
  using rgbToHsl_refines_spec [of 255 255 0] by (simp add: rgbToHsl_spec_def)

text \<open>
  C7. For all \<open>r\<close>, \<open>g\<close>, \<open>b\<close> between 0 and 255, \<^verbatim>\<open>rgbToHsl\<close> returns a finite triple
  with the hue at least 0 and below 360, and the saturation and the lightness between 0
  and 100.
\<close>

theorem rgbToHsl_range:
  assumes "0 \<le> r" "r \<le> 255" "0 \<le> g" "g \<le> 255" "0 \<le> b" "b \<le> 255"
  shows "\<exists>h s l. rgbToHsl (Fin r) (Fin g) (Fin b) = [Fin h, Fin s, Fin l]
           \<and> 0 \<le> h \<and> h < 360 \<and> 0 \<le> s \<and> s \<le> 100 \<and> 0 \<le> l \<and> l \<le> 100"
  using assms by (rule rgbToHsl_finite_range)

theorem rgbToHsl_range_witness:
  "\<exists>h s l. rgbToHsl (Fin 12) (Fin 200) (Fin 99) = [Fin h, Fin s, Fin l]
           \<and> 0 \<le> h \<and> h < 360 \<and> 0 \<le> s \<and> s \<le> 100 \<and> 0 \<le> l \<and> l \<le> 100"
  using rgbToHsl_range [of 12 200 99] by simp

text \<open>
  C8. For a grey input (the three channels equal) hue and saturation are both 0, whatever
  the lightness; black gives \<open>[0, 0, 0]\<close> and white gives \<open>[0, 0, 100]\<close>.
\<close>

theorem rgbToHsl_achromatic:
  "rgbToHsl (Fin x) (Fin x) (Fin x) = [Fin 0, Fin 0, Fin (x / 255 * 100)]
   \<and> rgbToHsl (Fin 0) (Fin 0) (Fin 0) = [Fin 0, Fin 0, Fin 0]
   \<and> rgbToHsl (Fin 255) (Fin 255) (Fin 255) = [Fin 0, Fin 0, Fin 100]"
  by (simp add: rgbToHsl_gray)

section \<open>The bytes of a parsed colour code\<close>

lemma band_255: "band x (Fin 255) = num (toInt32 x mod 256)"
  by (simp add: band_def and_255 toInt32_255 del: toInt32.simps)

lemma hexToRgb_bytes:
  "\<exists>r g b. hexToRgb hex = [num r, num g, num b]
     \<and> 0 \<le> r \<and> r \<le> 255 \<and> 0 \<le> g \<and> g \<le> 255 \<and> 0 \<le> b \<and> b \<le> 255"
proof -
  define v where "v = parseInt16 (drop 1 hex)"
  have "hexToRgb hex = [num (toInt32 (shr v 16) mod 256), num (toInt32 (shr v 8) mod 256),
      num (toInt32 v mod 256)]"
    by (simp add: hexToRgb_def Let_def band_255 v_def del: toInt32.simps)
  moreover have "0 \<le> n mod 256 \<and> n mod 256 \<le> 255" for n :: int
    using pos_mod_bound [of 256 n] by simp
  ultimately have "hexToRgb hex = [num (toInt32 (shr v 16) mod 256), num (toInt32 (shr v 8) mod 256),
      num (toInt32 v mod 256)]
     \<and> 0 \<le> toInt32 (shr v 16) mod 256 \<and> toInt32 (shr v 16) mod 256 \<le> 255
     \<and> 0 \<le> toInt32 (shr v 8) mod 256 \<and> toInt32 (shr v 8) mod 256 \<le> 255
     \<and> 0 \<le> toInt32 v mod 256 \<and> toInt32 v mod 256 \<le> 255"
    by blast
  then show ?thesis by (intro exI)
qed

lemma scoreLoop_in_range:
  assumes "numQuestions \<le> length questions" "numQuestions \<le> length answers"
  shows "scoreLoop numQuestions questions answers i t =
    Inr (foldl (\<lambda>t i. questionBody (questions ! i) (answers ! i) t) t [i..<numQuestions])"
  using assms
proof (induction numQuestions questions answers i t rule: scoreLoop.induct)
  case (1 numQuestions questions answers i t)
  show ?case
  proof (cases "i < numQuestions")
    case True
    then have step: "questionStep questions answers t i = Inr (questionBody (questions ! i) (answers ! i) t)"
      using "1.prems" by (simp add: questionStep_def)
    have "scoreLoop numQuestions questions answers i t =
       scoreLoop numQuestions questions answers (Suc i) (questionBody (questions ! i) (answers ! i) t)"
      using True step by (subst scoreLoop.simps) simp
    also have "\<dots> = Inr (foldl (\<lambda>t i. questionBody (questions ! i) (answers ! i) t)
        (questionBody (questions ! i) (answers ! i) t) [Suc i..<numQuestions])"
      using "1.IH" [OF True step] "1.prems" by simp
    finally show ?thesis using True by (simp add: upt_rec [of i])
  next
    case False
    then show ?thesis by (subst scoreLoop.simps) simp
  qed
qed

section \<open>The pooled squared errors\<close>

lemma squaredErrors_channelStep:
  "squaredErrors (channelStep [Fin u0, Fin u1, Fin u2] [Fin c0, Fin c1, Fin c2] uh ch t j) =
     squaredErrors t @ [num_mul (num_div (num_sub ([Fin u0, Fin u1, Fin u2] ! j) ([Fin c0, Fin c1, Fin c2] ! j)) (Fin 255))
        (num_div (num_sub ([Fin u0, Fin u1, Fin u2] ! j) ([Fin c0, Fin c1, Fin c2] ! j)) (Fin 255))]"
  by (simp add: channelStep_def Let_def)

lemma squaredErrors_questionBody:
  "squaredErrors (questionBody q answer t) =
     squaredErrors t @ map (\<lambda>e. Fin (e ^ 2)) (rgbErrors q answer)"
proof -
  obtain r g b where u: "userRgb answer = [num r, num g, num b]"
    unfolding userRgb_def using hexToRgb_bytes by blast
  then have h: "hexToRgb (CHR ''#'' # (if answer = [] then ''000000'' else answer)) = [Fin (real_of_int r), Fin (real_of_int g), Fin (real_of_int b)]"
    by (simp add: userRgb_def num_def)
  show ?thesis
    unfolding questionBody_def Let_def rgbErrors_def u
    by (simp add: h num_def squaredErrors_channelStep power2_eq_square)
qed

lemma length_rgbErrors: "length (rgbErrors q answer) = 3"
proof -
  obtain r g b where "userRgb answer = [num r, num g, num b]"
    unfolding userRgb_def using hexToRgb_bytes by blast
  then show ?thesis by (simp add: rgbErrors_def)
qed

lemma squaredErrors_foldl:
  "squaredErrors (foldl (\<lambda>t i. questionBody (questions ! i) (answers ! i) t) t js) =
     squaredErrors t @ map Fin (concat (map (\<lambda>i. map (\<lambda>e. e ^ 2) (rgbErrors (questions ! i) (answers ! i))) js))"
proof (induction js arbitrary: t)
  case Nil
  show ?case by simp
next
  case (Cons j js)
  show ?case by (simp add: Cons.IH squaredErrors_questionBody comp_def)
qed

lemma length_pooled: "length (concat (map (\<lambda>i. map (\<lambda>e. e ^ 2) (rgbErrors (questions ! i) (answers ! i))) js)) = 3 * length js"
  by (induction js) (simp_all add: length_rgbErrors)

lemma length_pooledSquaredErrors: "length (pooledSquaredErrors n questions answers) = 3 * n"
  by (simp add: pooledSquaredErrors_def length_pooled)

lemma foldl_num_add_Fin: "foldl (\<lambda>sum error. num_add sum error) (Fin a) (map Fin xs) = Fin (a + sum_list xs)"
  by (induction xs arbitrary: a) (simp_all add: add.assoc)

lemma sum_list_pooled_nonneg: "0 \<le> sum_list (pooledSquaredErrors n questions answers)"
  by (rule sum_list_nonneg) (auto simp: pooledSquaredErrors_def)

lemma calculateScore_rmse:
  assumes "0 < n" "n \<le> length questions" "n \<le> length answers"
  shows "\<exists>rep. calculateScore n questions answers = Inr rep \<and> rmse rep = Fin (rmse_spec n questions answers)"
proof -
  let ?t0 = "\<lparr>totalRgbError = [Fin 0, Fin 0, Fin 0], totalHslError = [Fin 0, Fin 0, Fin 0], squaredErrors = []\<rparr>"
  define t where "t = foldl (\<lambda>t i. questionBody (questions ! i) (answers ! i) t) ?t0 [0..<n]"
  define pooled where "pooled = pooledSquaredErrors n questions answers"
  have loop: "scoreLoop n questions answers 0 ?t0 = Inr t"
    unfolding t_def using assms(2,3) by (rule scoreLoop_in_range)
  have sq: "squaredErrors t = map Fin pooled"
    by (simp add: t_def pooled_def squaredErrors_foldl pooledSquaredErrors_def)
  have len: "length pooled = 3 * n" by (simp add: pooled_def length_pooledSquaredErrors)
  then have ne: "real (length pooled) \<noteq> 0" using assms(1) by simp
  have nn: "\<not> sum_list pooled / real (length pooled) < 0"
    using sum_list_pooled_nonneg [of n questions answers] by (simp add: pooled_def not_less)
  have mean: "num_div (foldl (\<lambda>sum error. num_add sum error) (Fin 0) (squaredErrors t)) (Fin (real (length (squaredErrors t))))
     = Fin (sum_list pooled / real (length pooled))"
    unfolding sq foldl_num_add_Fin using ne by simp
  have "rmse (case calculateScore n questions answers of Inr rep \<Rightarrow> rep) = Fin (rmse_spec n questions answers)"
    unfolding calculateScore_def loop Let_def using nn mean
    by (simp add: rmse_spec_def Let_def pooled_def)
  moreover have "\<exists>rep. calculateScore n questions answers = Inr rep"
    unfolding calculateScore_def loop by simp
  ultimately show ?thesis by auto
qed

section \<open>Worked sessions\<close>

lemmas parse_eval = hexToRgb_def parseInt16_def stripSign_def stripPrefix_def isSpace_def isHexDigit_def
      digitVal_def digitsValue_def code_def band_def shr_def num_def Let_def toNumber_exact

lemmas hsl_eval = rgbToHsl_def Math_max3 Math_min3 strict_eq_def num_gt_def Let_def

lemma scoreLoop_single:
  "scoreLoop 1 [q] [a] 0 t = Inr (questionBody q a t)"
  by (simp add: scoreLoop_in_range)

lemma example_hexToRgb: "hexToRgb ''#00FF00'' = [Fin 0, Fin 255, Fin 0]"
  by (simp add: parse_eval)

lemma example_hsl: "rgbToHsl (Fin 255) (Fin 0) (Fin 0) = [Fin 0, Fin 100, Fin 50]"
  "rgbToHsl (Fin 0) (Fin 255) (Fin 0) = [Fin 120, Fin 100, Fin 50]"
  by (simp_all add: hsl_eval)

lemma example_body:
  "questionBody \<lparr>q_hex = ''#FF0000'', q_r = 255, q_g = 0, q_b = 0\<rparr> ''00FF00''
     \<lparr>totalRgbError = [Fin 0, Fin 0, Fin 0], totalHslError = [Fin 0, Fin 0, Fin 0], squaredErrors = []\<rparr>
   = \<lparr>totalRgbError = [Fin (- 1), Fin 1, Fin 0], totalHslError = [Fin (2 / 3), Fin 0, Fin 0],
      squaredErrors = [Fin 1, Fin 1, Fin 0]\<rparr>"
  unfolding questionBody_def
  by (simp add: example_hexToRgb example_hsl num_def channelStep_def hslError_def Math_min2 Let_def)

lemma example_score:
  "calculateScore 1 [\<lparr>q_hex = ''#FF0000'', q_r = 255, q_g = 0, q_b = 0\<rparr>] [''00FF00'']
   = Inr \<lparr>avgRgbError = [Fin (- 100), Fin 100, Fin 0], avgHslError = [Fin (200 / 3), Fin 0, Fin 0],
          rmse = Fin (sqrt (2 / 3) * 100)\<rparr>"
  unfolding calculateScore_def scoreLoop_single example_body
  by simp

lemma sqrt_two_thirds: "8164965 / 10000000 \<le> sqrt (2 / 3)" "sqrt (2 / 3) < 8164975 / 10000000"
proof -
  show "8164965 / 10000000 \<le> sqrt (2 / 3)"
    by (rule real_le_rsqrt) (simp add: power2_eq_square)
  show "sqrt (2 / 3) < 8164975 / 10000000"
    by (rule real_less_lsqrt) (simp_all add: power2_eq_square)
qed

lemma example_toFixed: "toFixed 4 (sqrt (2 / 3) * 100) = 816497"
proof -
  have "\<lfloor>sqrt (2 / 3) * 100 * 10 ^ 4 + 1 / 2\<rfloor> = 816497"
    using sqrt_two_thirds by (intro floor_unique) auto
  moreover have "\<not> sqrt (2 / 3) * 100 < 0" by simp
  ultimately show ?thesis unfolding toFixed_def by simp
qed

section \<open>Empty answers\<close>


lemma questionStep_cong:
  assumes "length answers' = length answers"
    and "\<And>q t. i < length answers \<Longrightarrow> questionBody q (answers' ! i) t = questionBody q (answers ! i) t"
  shows "questionStep questions answers' t i = questionStep questions answers t i"
  using assms by (simp add: questionStep_def)

lemma scoreLoop_cong:
  assumes "length answers' = length answers"
    and "\<And>q t i. i < length answers \<Longrightarrow> questionBody q (answers' ! i) t = questionBody q (answers ! i) t"
  shows "scoreLoop n questions answers' i t = scoreLoop n questions answers i t"
  using assms
proof (induction n questions answers i t rule: scoreLoop.induct)
  case (1 n questions answers i t)
  have step: "questionStep questions answers' t i = questionStep questions answers t i"
    using "1.prems" by (intro questionStep_cong) auto
  show ?case
  proof (cases "i < n")
    case True
    show ?thesis
    proof (cases "questionStep questions answers t i")
      case (Inl e)
      then show ?thesis using True step
        by (simp add: scoreLoop.simps [of n questions answers' i t] scoreLoop.simps [of n questions answers i t])
    next
      case (Inr t')
      have "scoreLoop n questions answers' (Suc i) t' = scoreLoop n questions answers (Suc i) t'"
        using "1.IH" [OF True Inr] "1.prems" by simp
      then show ?thesis using True step Inr
        by (simp add: scoreLoop.simps [of n questions answers' i t] scoreLoop.simps [of n questions answers i t])
    qed
  next
    case False
    then show ?thesis by (simp add: scoreLoop.simps [of n questions answers' i t] scoreLoop.simps [of n questions answers i t])
  qed
qed

lemma calculateScore_cong:
  assumes "length answers' = length answers"
    and "\<And>q t i. i < length answers \<Longrightarrow> questionBody q (answers' ! i) t = questionBody q (answers ! i) t"
  shows "calculateScore n questions answers' = calculateScore n questions answers"
  by (simp add: calculateScore_def scoreLoop_cong [OF assms])




section \<open>Sessions answered perfectly\<close>

text \<open>Every question that \<^verbatim>\<open>setupQuestions\<close> stores is of this kind.\<close>

lemma generateRandomColor_generated:
  assumes "0 \<le> u1" "u1 < 1" "0 \<le> u2" "u2 < 1" "0 \<le> u3" "u3 < 1"
  shows "generated (mkQuestion (generateRandomColor u1 u2 u3))"
proof -
  have "0 \<le> \<lfloor>u * 256\<rfloor> \<and> \<lfloor>u * 256\<rfloor> \<le> 255" if "0 \<le> u" "u < 1" for u :: real
  proof
    show "0 \<le> \<lfloor>u * 256\<rfloor>" using that by simp
    have "\<lfloor>u * 256\<rfloor> < 256" using that by (simp add: floor_less_iff)
    then show "\<lfloor>u * 256\<rfloor> \<le> 255" by simp
  qed
  then show ?thesis using assms
    by (simp add: generated_def mkQuestion_def generateRandomColor_def Let_def)
qed

lemma hslError_same:
  "hslError 0 [Fin h, Fin s, Fin l] [Fin h, Fin s, Fin l] = Fin 0"
  "hslError 1 [Fin h, Fin s, Fin l] [Fin h, Fin s, Fin l] = Fin 0"
  "hslError 2 [Fin h, Fin s, Fin l] [Fin h, Fin s, Fin l] = Fin 0"
  by (simp_all add: hslError_def Math_min2 Let_def)

lemma perfect_body:
  assumes "generated q" and a: "a = drop 1 (q_hex q)"
  shows "questionBody q a
     \<lparr>totalRgbError = [Fin 0, Fin 0, Fin 0], totalHslError = [Fin 0, Fin 0, Fin 0], squaredErrors = sq\<rparr>
   = \<lparr>totalRgbError = [Fin 0, Fin 0, Fin 0], totalHslError = [Fin 0, Fin 0, Fin 0],
      squaredErrors = sq @ [Fin 0, Fin 0, Fin 0]\<rparr>"
proof -
  have rng: "0 \<le> q_r q" "q_r q \<le> 255" "0 \<le> q_g q" "q_g q \<le> 255" "0 \<le> q_b q" "q_b q \<le> 255"
    and hex: "q_hex q = hexOf (q_r q) (q_g q) (q_b q)"
    using assms by (auto simp: generated_def)
  have ne: "a \<noteq> []" and hd: "CHR ''#'' # a = q_hex q"
    unfolding a hex hexOf_digits [OF rng] by simp_all
  have u: "hexToRgb (q_hex q) = [num (q_r q), num (q_g q), num (q_b q)]"
    unfolding hex using rng by (rule hexToRgb_hexOf_bytes)
  obtain h s l where hsl: "rgbToHsl (num (q_r q)) (num (q_g q)) (num (q_b q)) = [Fin h, Fin s, Fin l]"
    using rgbToHsl_finite_range [of "real_of_int (q_r q)" "real_of_int (q_g q)" "real_of_int (q_b q)"] rng
    unfolding num_def by auto
  show ?thesis
    unfolding questionBody_def Let_def
    using ne by (simp add: hd u hsl channelStep_def hslError_same [unfolded One_nat_def] Let_def) (simp add: num_def)
qed

lemma perfect_foldl:
  assumes "\<forall>j \<in> set js. generated (questions ! j) \<and> answers ! j = drop 1 (q_hex (questions ! j))"
  shows "foldl (\<lambda>t i. questionBody (questions ! i) (answers ! i) t)
     \<lparr>totalRgbError = [Fin 0, Fin 0, Fin 0], totalHslError = [Fin 0, Fin 0, Fin 0], squaredErrors = sq\<rparr> js
   = \<lparr>totalRgbError = [Fin 0, Fin 0, Fin 0], totalHslError = [Fin 0, Fin 0, Fin 0],
      squaredErrors = sq @ replicate (3 * length js) (Fin 0)\<rparr>"
  using assms
proof (induction js arbitrary: sq)
  case Nil
  show ?case by simp
next
  case (Cons j js)
  have "replicate (3 * length (j # js)) (Fin 0) = [Fin 0, Fin 0, Fin 0] @ replicate (3 * length js) (Fin 0)"
    by (simp add: numeral_3_eq_3)
  moreover have "questionBody (questions ! j) (answers ! j)
     \<lparr>totalRgbError = [Fin 0, Fin 0, Fin 0], totalHslError = [Fin 0, Fin 0, Fin 0], squaredErrors = sq\<rparr>
   = \<lparr>totalRgbError = [Fin 0, Fin 0, Fin 0], totalHslError = [Fin 0, Fin 0, Fin 0],
      squaredErrors = sq @ [Fin 0, Fin 0, Fin 0]\<rparr>"
    using Cons.prems by (intro perfect_body) simp_all
  moreover have "\<forall>j \<in> set js. generated (questions ! j) \<and> answers ! j = drop 1 (q_hex (questions ! j))"
    using Cons.prems by simp
  ultimately show ?case by (simp add: Cons.IH del: replicate.simps replicate_Suc)
qed

lemma foldl_num_add_zeros: "foldl num_add (Fin 0) (replicate k (Fin 0)) = Fin 0"
  by (induction k) simp_all

lemma perfect_score:
  assumes "0 < n" "n \<le> length questions" "n \<le> length answers"
    and "\<forall>i<n. generated (questions ! i) \<and> answers ! i = drop 1 (q_hex (questions ! i))"
  shows "calculateScore n questions answers =
    Inr \<lparr>avgRgbError = [Fin 0, Fin 0, Fin 0], avgHslError = [Fin 0, Fin 0, Fin 0], rmse = Fin 0\<rparr>"
proof -
  let ?t0 = "\<lparr>totalRgbError = [Fin 0, Fin 0, Fin 0], totalHslError = [Fin 0, Fin 0, Fin 0], squaredErrors = []\<rparr>"
  have "\<forall>j \<in> set [0..<n]. generated (questions ! j) \<and> answers ! j = drop 1 (q_hex (questions ! j))"
    using assms(4) by simp
  then have loop: "scoreLoop n questions answers 0 ?t0 =
     Inr \<lparr>totalRgbError = [Fin 0, Fin 0, Fin 0], totalHslError = [Fin 0, Fin 0, Fin 0],
      squaredErrors = replicate (3 * n) (Fin 0)\<rparr>"
    unfolding scoreLoop_in_range [OF assms(2,3)] by (simp add: perfect_foldl)
  show ?thesis
    unfolding calculateScore_def loop using assms(1)
    by (simp add: foldl_num_add_zeros)
qed

section \<open>Upper and lower case\<close>

lemma code_bound: "code c < 256"
  by (simp add: code_def)

lemma code_upperChar: "code (upperChar c) = (if 97 \<le> code c \<and> code c \<le> 122 then code c - 32 else code c)"
  using code_bound [of c] by (auto simp: upperChar_def code_char_of)

lemma code_lowerChar: "code (lowerChar c) = (if 65 \<le> code c \<and> code c \<le> 90 then code c + 32 else code c)"
  by (auto simp: lowerChar_def code_char_of)

lemma upperChar_props:
  "digitVal (upperChar c) = digitVal c" "isHexDigit (upperChar c) = isHexDigit c"
  "isSpace (upperChar c) = isSpace c"
  "upperChar c = CHR ''-'' \<longleftrightarrow> c = CHR ''-''" "upperChar c = CHR ''+'' \<longleftrightarrow> c = CHR ''+''"
  "upperChar c = CHR ''0'' \<longleftrightarrow> c = CHR ''0''"
  "(upperChar c = CHR ''x'' \<or> upperChar c = CHR ''X'') \<longleftrightarrow> (c = CHR ''x'' \<or> c = CHR ''X'')"
  by (auto simp: digitVal_def isHexDigit_def isSpace_def Let_def char_eq_code code_upperChar code_simps)

lemma lowerChar_props:
  "digitVal (lowerChar c) = digitVal c" "isHexDigit (lowerChar c) = isHexDigit c"
  "isSpace (lowerChar c) = isSpace c"
  "lowerChar c = CHR ''-'' \<longleftrightarrow> c = CHR ''-''" "lowerChar c = CHR ''+'' \<longleftrightarrow> c = CHR ''+''"
  "lowerChar c = CHR ''0'' \<longleftrightarrow> c = CHR ''0''"
  "(lowerChar c = CHR ''x'' \<or> lowerChar c = CHR ''X'') \<longleftrightarrow> (c = CHR ''x'' \<or> c = CHR ''X'')"
  by (auto simp: digitVal_def isHexDigit_def isSpace_def Let_def char_eq_code code_lowerChar code_simps)

text \<open>A map on characters that keeps what \<^verbatim>\<open>parseInt\<close> looks at.\<close>

lemma parseInt16_map:
  assumes dv: "\<And>c. digitVal (f c) = digitVal c"
    and sp: "\<And>c. isSpace (f c) = isSpace c"
    and minus: "\<And>c. f c = CHR ''-'' \<longleftrightarrow> c = CHR ''-''"
    and plus: "\<And>c. f c = CHR ''+'' \<longleftrightarrow> c = CHR ''+''"
    and zero: "\<And>c. f c = CHR ''0'' \<longleftrightarrow> c = CHR ''0''"
    and x: "\<And>c. (f c = CHR ''x'' \<or> f c = CHR ''X'') \<longleftrightarrow> (c = CHR ''x'' \<or> c = CHR ''X'')"
  shows "parseInt16 (map f s) = parseInt16 s"
proof -
  have hd: "isHexDigit (f c) = isHexDigit c" for c by (simp add: isHexDigit_def dv)
  have drop: "dropWhile isSpace (map f s) = map f (dropWhile isSpace s)" for s
    by (simp add: dropWhile_map comp_def sp)
  have sign: "stripSign (map f s) = (fst (stripSign s), map f (snd (stripSign s)))" for s
    by (cases s) (auto simp: stripSign_def minus plus)
  have pre: "stripPrefix (map f s) = map f (stripPrefix s)" for s
  proof (cases s)
    case Nil
    then show ?thesis by (simp add: stripPrefix_def)
  next
    case (Cons c cs)
    then show ?thesis using x by (cases cs) (auto simp: stripPrefix_def zero)
  qed
  have take: "takeWhile isHexDigit (map f s) = map f (takeWhile isHexDigit s)" for s
    by (simp add: takeWhile_map comp_def hd)
  have val: "digitsValue (map f z) = digitsValue z" for z
    by (simp add: digitsValue_def foldl_map dv)
  show ?thesis
    by (simp add: parseInt16_def drop sign pre take val split_beta Let_def)
qed

lemma parseInt16_upper: "parseInt16 (toUpperCase s) = parseInt16 s"
  unfolding toUpperCase_def by (rule parseInt16_map) (rule upperChar_props)+

lemma parseInt16_lower: "parseInt16 (toLowerCase s) = parseInt16 s"
  unfolding toLowerCase_def by (rule parseInt16_map) (rule lowerChar_props)+

lemma hexToRgb_case:
  "hexToRgb (CHR ''#'' # toUpperCase s) = hexToRgb (CHR ''#'' # s)"
  "hexToRgb (CHR ''#'' # toLowerCase s) = hexToRgb (CHR ''#'' # s)"
  by (simp_all add: hexToRgb_def parseInt16_upper parseInt16_lower)

lemma questionBody_case:
  "questionBody q (toUpperCase a) t = questionBody q a t"
  "questionBody q (toLowerCase a) t = questionBody q a t"
proof -
  have "toUpperCase a = [] \<longleftrightarrow> a = []" "toLowerCase a = [] \<longleftrightarrow> a = []"
    by (simp_all add: toUpperCase_def toLowerCase_def)
  then show "questionBody q (toUpperCase a) t = questionBody q a t"
    "questionBody q (toLowerCase a) t = questionBody q a t"
    by (simp_all add: questionBody_def hexToRgb_case)
qed

lemma calculateScore_case:
  "calculateScore n questions (map toUpperCase answers) = calculateScore n questions answers"
  "calculateScore n questions (map toLowerCase answers) = calculateScore n questions answers"
  by (rule calculateScore_cong; simp add: questionBody_case)+

lemma hexToRgb_any_case:
  assumes "0 \<le> r" "r \<le> 255" "0 \<le> g" "g \<le> 255" "0 \<le> b" "b \<le> 255"
    and "toUpperCase s = drop 1 (hexOf r g b)"
  shows "hexToRgb (CHR ''#'' # s) = [num r, num g, num b]"
proof -
  have "CHR ''#'' # drop 1 (hexOf r g b) = hexOf r g b"
    unfolding hexOf_digits [OF assms(1-6)] by simp
  then have "hexToRgb (CHR ''#'' # toUpperCase s) = hexToRgb (hexOf r g b)"
    using assms(7) by simp
  then show ?thesis
    using hexToRgb_hexOf_bytes [OF assms(1-6)] by (simp add: hexToRgb_case)
qed

text \<open>
  C10. Parsing ignores the case of the hexadecimal digits: whichever way the six digits
  of the colour code of \<open>r\<close>, \<open>g\<close>, \<open>b\<close> (each from 0 to 255) are written, in
  upper, lower or mixed case, \<^verbatim>\<open>hexToRgb\<close> returns \<open>[r, g, b]\<close>; an answer in lower
  case gives the same colour, and the same score, as the answer in upper case.
\<close>

theorem hexToRgb_case_insensitive:
  "(0 \<le> r \<and> r \<le> 255 \<and> 0 \<le> g \<and> g \<le> 255 \<and> 0 \<le> b \<and> b \<le> 255
      \<and> toUpperCase s = drop 1 (hexOf r g b)
      \<longrightarrow> hexToRgb (CHR ''#'' # s) = [num r, num g, num b])
   \<and> hexToRgb (CHR ''#'' # toLowerCase s) = hexToRgb (CHR ''#'' # s)
   \<and> hexToRgb (CHR ''#'' # toUpperCase s) = hexToRgb (CHR ''#'' # s)
   \<and> calculateScore n questions (map toLowerCase answers) = calculateScore n questions answers
   \<and> calculateScore n questions (map toUpperCase answers) = calculateScore n questions answers"
proof -
  have one: "0 \<le> r \<and> r \<le> 255 \<and> 0 \<le> g \<and> g \<le> 255 \<and> 0 \<le> b \<and> b \<le> 255
      \<and> toUpperCase s = drop 1 (hexOf r g b)
      \<longrightarrow> hexToRgb (CHR ''#'' # s) = [num r, num g, num b]"
    using hexToRgb_any_case [of r g b s] by blast
  show ?thesis
    by (intro conjI one hexToRgb_case calculateScore_case)
qed

theorem hexToRgb_case_insensitive_witness:
  "toUpperCase ''fF000a'' = drop 1 (hexOf 255 0 10)
   \<and> hexToRgb ''#fF000a'' = [num 255, num 0, num 10]"
proof -
  have "toUpperCase ''fF000a'' = drop 1 (hexOf 255 0 10)" by code_simp
  then show ?thesis
    using hexToRgb_case_insensitive [of 255 0 10 "''fF000a''"] by simp
qed

section \<open>The errors of hue, saturation and lightness\<close>

lemma hslError_Fin:
  "hslError 0 [Fin uh, Fin us, Fin ul] [Fin ch, Fin cs, Fin cl]
     = Fin (min \<bar>uh - ch\<bar> (360 - \<bar>uh - ch\<bar>) / 180)"
  "hslError 1 [Fin uh, Fin us, Fin ul] [Fin ch, Fin cs, Fin cl] = Fin ((us - cs) / 100)"
  "hslError 2 [Fin uh, Fin us, Fin ul] [Fin ch, Fin cs, Fin cl] = Fin ((ul - cl) / 100)"
  by (simp_all add: hslError_def Math_min2 Let_def)

text \<open>
  C3. The hue error of two hues on the circle of 360 degrees is the shorter of the two
  ways round, \<open>min \<bar>u - c\<bar> (360 - \<bar>u - c\<bar>)\<close>, divided by 180: it is never negative
  and at most 1, and for the hues 10 and 350 it is \<open>20 / 180\<close>, not \<open>340 / 180\<close>. The
  errors of saturation and lightness are the signed differences divided by 100, between
  \<open>-1\<close> and 1.
\<close>

theorem hslError_channels:
  assumes "0 \<le> uh" "uh < 360" "0 \<le> ch" "ch < 360"
    and "0 \<le> us" "us \<le> 100" "0 \<le> cs" "cs \<le> 100"
    and "0 \<le> ul" "ul \<le> 100" "0 \<le> cl" "cl \<le> 100"
  shows "hslError 0 [Fin uh, Fin us, Fin ul] [Fin ch, Fin cs, Fin cl]
           = Fin (min \<bar>uh - ch\<bar> (360 - \<bar>uh - ch\<bar>) / 180)
         \<and> 0 \<le> min \<bar>uh - ch\<bar> (360 - \<bar>uh - ch\<bar>) / 180
         \<and> min \<bar>uh - ch\<bar> (360 - \<bar>uh - ch\<bar>) / 180 \<le> 1
         \<and> hslError 1 [Fin uh, Fin us, Fin ul] [Fin ch, Fin cs, Fin cl] = Fin ((us - cs) / 100)
         \<and> - 1 \<le> (us - cs) / 100 \<and> (us - cs) / 100 \<le> 1
         \<and> hslError 2 [Fin uh, Fin us, Fin ul] [Fin ch, Fin cs, Fin cl] = Fin ((ul - cl) / 100)
         \<and> - 1 \<le> (ul - cl) / 100 \<and> (ul - cl) / 100 \<le> 1
         \<and> hslError 0 [Fin 10, Fin us, Fin ul] [Fin 350, Fin cs, Fin cl] = Fin (20 / 180)
         \<and> hslError 0 [Fin 10, Fin us, Fin ul] [Fin 350, Fin cs, Fin cl] \<noteq> Fin (340 / 180)"
proof -
  have range: "0 \<le> min \<bar>uh - ch\<bar> (360 - \<bar>uh - ch\<bar>) / 180"
    "min \<bar>uh - ch\<bar> (360 - \<bar>uh - ch\<bar>) / 180 \<le> 1"
    "- 1 \<le> (us - cs) / 100" "(us - cs) / 100 \<le> 1" "- 1 \<le> (ul - cl) / 100" "(ul - cl) / 100 \<le> 1"
    using assms by (auto simp: min_def)
  have ex: "hslError 0 [Fin 10, Fin us, Fin ul] [Fin 350, Fin cs, Fin cl] = Fin (20 / 180)"
    "hslError 0 [Fin 10, Fin us, Fin ul] [Fin 350, Fin cs, Fin cl] \<noteq> Fin (340 / 180)"
    by (simp_all add: hslError_Fin)
  show ?thesis
    by (intro conjI hslError_Fin range ex)
qed

theorem hslError_channels_witness:
  "hslError 0 [Fin 350, Fin 20, Fin 80] [Fin 10, Fin 50, Fin 40] = Fin (1 / 9)
   \<and> hslError 1 [Fin 350, Fin 20, Fin 80] [Fin 10, Fin 50, Fin 40] = Fin (- 3 / 10)
   \<and> hslError 2 [Fin 350, Fin 20, Fin 80] [Fin 10, Fin 50, Fin 40] = Fin (2 / 5)"
  using hslError_channels [of 350 10 20 50 80 40] by simp

section \<open>Malformed colour codes\<close>

lemma parseInt16_NaN: "parseInt16 (drop 1 hex) = NaN \<Longrightarrow> hexToRgb hex = [Fin 0, Fin 0, Fin 0]"
  by (simp add: hexToRgb_def band_def shr_def num_def)

lemma questionBody_finite:
  assumes "generated q"
    and "totalRgbError t = [Fin a0, Fin a1, Fin a2]" "totalHslError t = [Fin h0, Fin h1, Fin h2]"
  shows "\<exists>a0 a1 a2 h0 h1 h2. totalRgbError (questionBody q answer t) = [Fin a0, Fin a1, Fin a2]
     \<and> totalHslError (questionBody q answer t) = [Fin h0, Fin h1, Fin h2]"
proof -
  have rng: "0 \<le> q_r q" "q_r q \<le> 255" "0 \<le> q_g q" "q_g q \<le> 255" "0 \<le> q_b q" "q_b q \<le> 255"
    using assms(1) by (auto simp: generated_def)
  obtain r g b where u: "hexToRgb (CHR ''#'' # (if answer = [] then ''000000'' else answer)) = [Fin (real_of_int r), Fin (real_of_int g), Fin (real_of_int b)]"
    and urng: "0 \<le> r" "r \<le> 255" "0 \<le> g" "g \<le> 255" "0 \<le> b" "b \<le> 255"
    using hexToRgb_bytes [of "CHR ''#'' # (if answer = [] then ''000000'' else answer)"]
    unfolding num_def by blast
  obtain ch cs cl where chsl: "rgbToHsl (Fin (real_of_int (q_r q))) (Fin (real_of_int (q_g q))) (Fin (real_of_int (q_b q))) = [Fin ch, Fin cs, Fin cl]"
    using rgbToHsl_finite_range [of "real_of_int (q_r q)" "real_of_int (q_g q)" "real_of_int (q_b q)"] rng
    by auto
  obtain uh us ul where uhsl: "rgbToHsl (Fin (real_of_int r)) (Fin (real_of_int g)) (Fin (real_of_int b)) = [Fin uh, Fin us, Fin ul]"
    using rgbToHsl_finite_range [of "real_of_int r" "real_of_int g" "real_of_int b"] urng
    by auto
  show ?thesis
    unfolding questionBody_def Let_def
    by (simp add: u chsl uhsl num_def channelStep_def assms(2,3) hslError_Fin [unfolded One_nat_def] Let_def)
qed

lemma foldl_finite:
  assumes "\<forall>j \<in> set js. generated (questions ! j)"
    and "\<exists>a0 a1 a2 h0 h1 h2. totalRgbError t = [Fin a0, Fin a1, Fin a2]
           \<and> totalHslError t = [Fin h0, Fin h1, Fin h2]"
  shows "\<exists>a0 a1 a2 h0 h1 h2.
     totalRgbError (foldl (\<lambda>t i. questionBody (questions ! i) (answers ! i) t) t js) = [Fin a0, Fin a1, Fin a2]
     \<and> totalHslError (foldl (\<lambda>t i. questionBody (questions ! i) (answers ! i) t) t js) = [Fin h0, Fin h1, Fin h2]"
  using assms
proof (induction js arbitrary: t)
  case Nil
  then show ?case by simp
next
  case (Cons j js)
  from Cons.prems(2) obtain a0 a1 a2 h0 h1 h2 where
    "totalRgbError t = [Fin a0, Fin a1, Fin a2]" "totalHslError t = [Fin h0, Fin h1, Fin h2]"
    by blast
  moreover have "generated (questions ! j)" using Cons.prems(1) by simp
  ultimately have "\<exists>a0 a1 a2 h0 h1 h2.
      totalRgbError (questionBody (questions ! j) (answers ! j) t) = [Fin a0, Fin a1, Fin a2]
     \<and> totalHslError (questionBody (questions ! j) (answers ! j) t) = [Fin h0, Fin h1, Fin h2]"
    by (intro questionBody_finite)
  moreover have "\<forall>j \<in> set js. generated (questions ! j)" using Cons.prems(1) by simp
  ultimately show ?case using Cons.IH by simp
qed

lemma calculateScore_finite:
  assumes "0 < n" "n \<le> length questions" "n \<le> length answers"
    and "\<forall>i<n. generated (questions ! i)"
  shows "\<exists>a0 a1 a2 h0 h1 h2 e. calculateScore n questions answers =
    Inr \<lparr>avgRgbError = [Fin a0, Fin a1, Fin a2], avgHslError = [Fin h0, Fin h1, Fin h2], rmse = Fin e\<rparr>"
proof -
  let ?t0 = "\<lparr>totalRgbError = [Fin 0, Fin 0, Fin 0], totalHslError = [Fin 0, Fin 0, Fin 0], squaredErrors = []\<rparr>"
  define t where "t = foldl (\<lambda>t i. questionBody (questions ! i) (answers ! i) t) ?t0 [0..<n]"
  have loop: "scoreLoop n questions answers 0 ?t0 = Inr t"
    unfolding t_def using assms(2,3) by (rule scoreLoop_in_range)
  have "\<forall>j \<in> set [0..<n]. generated (questions ! j)" using assms(4) by simp
  moreover have "\<exists>a0 a1 a2 h0 h1 h2. totalRgbError ?t0 = [Fin a0, Fin a1, Fin a2]
           \<and> totalHslError ?t0 = [Fin h0, Fin h1, Fin h2]"
    by simp
  ultimately obtain a0 a1 a2 h0 h1 h2 where
    tot: "totalRgbError t = [Fin a0, Fin a1, Fin a2]" "totalHslError t = [Fin h0, Fin h1, Fin h2]"
    unfolding t_def using foldl_finite [of "[0..<n]" questions ?t0 answers] by blast
  obtain rep where rep: "calculateScore n questions answers = Inr rep"
    "rmse rep = Fin (rmse_spec n questions answers)"
    using calculateScore_rmse [OF assms(1-3)] by blast
  have "avgRgbError rep = [Fin (a0 / real n * 100), Fin (a1 / real n * 100), Fin (a2 / real n * 100)]"
    "avgHslError rep = [Fin (h0 / real n * 100), Fin (h1 / real n * 100), Fin (h2 / real n * 100)]"
    using rep(1) assms(1) unfolding calculateScore_def loop by (auto simp: tot Let_def)
  with rep(2) have "rep = \<lparr>avgRgbError = [Fin (a0 / real n * 100), Fin (a1 / real n * 100), Fin (a2 / real n * 100)],
     avgHslError = [Fin (h0 / real n * 100), Fin (h1 / real n * 100), Fin (h2 / real n * 100)],
     rmse = Fin (rmse_spec n questions answers)\<rparr>"
    by simp
  with rep(1) show ?thesis by blast
qed

text \<open>
  C5, as the code has it. For a colour code whose six characters after the \<^verbatim>\<open>#\<close> are
  not all hexadecimal digits, \<^verbatim>\<open>hexToRgb\<close> validates nothing and throws nothing, and
  it yields no \<open>NaN\<close> either: it returns three integers from 0 to 255, \<open>[0, 0, 0]\<close>
  for \<^verbatim>\<open>#GGGGGG\<close>. The arithmetic after it stays finite: a session of generated
  questions with such answers gets a report of seven finite figures.
\<close>

theorem hexToRgb_malformed_bytes:
  "(length s = 6 \<and> \<not> list_all isHexDigit s
      \<longrightarrow> (\<exists>r g b. hexToRgb (CHR ''#'' # s) = [num r, num g, num b]
             \<and> 0 \<le> r \<and> r \<le> 255 \<and> 0 \<le> g \<and> g \<le> 255 \<and> 0 \<le> b \<and> b \<le> 255))
   \<and> (0 < n \<and> n \<le> length questions \<and> n \<le> length answers
        \<and> (\<forall>i<n. generated (questions ! i) \<and> length (answers ! i) = 6
                  \<and> \<not> list_all isHexDigit (answers ! i))
      \<longrightarrow> (\<exists>a0 a1 a2 h0 h1 h2 e. calculateScore n questions answers =
            Inr \<lparr>avgRgbError = [Fin a0, Fin a1, Fin a2], avgHslError = [Fin h0, Fin h1, Fin h2],
                 rmse = Fin e\<rparr>))
   \<and> hexToRgb ''#GGGGGG'' = [Fin 0, Fin 0, Fin 0]"
proof (intro conjI impI)
  show "\<exists>r g b. hexToRgb (CHR ''#'' # s) = [num r, num g, num b]
             \<and> 0 \<le> r \<and> r \<le> 255 \<and> 0 \<le> g \<and> g \<le> 255 \<and> 0 \<le> b \<and> b \<le> 255"
    by (rule hexToRgb_bytes)
next
  assume "0 < n \<and> n \<le> length questions \<and> n \<le> length answers
        \<and> (\<forall>i<n. generated (questions ! i) \<and> length (answers ! i) = 6
                  \<and> \<not> list_all isHexDigit (answers ! i))"
  then show "\<exists>a0 a1 a2 h0 h1 h2 e. calculateScore n questions answers =
            Inr \<lparr>avgRgbError = [Fin a0, Fin a1, Fin a2], avgHslError = [Fin h0, Fin h1, Fin h2],
                 rmse = Fin e\<rparr>"
    by (intro calculateScore_finite) auto
next
  show "hexToRgb ''#GGGGGG'' = [Fin 0, Fin 0, Fin 0]" by (simp add: parse_eval)
qed

theorem hexToRgb_malformed_bytes_witness:
  "length ''GGGGGG'' = 6 \<and> \<not> list_all isHexDigit ''GGGGGG''
   \<and> (\<exists>r g b. hexToRgb ''#GGGGGG'' = [num r, num g, num b]
             \<and> 0 \<le> r \<and> r \<le> 255 \<and> 0 \<le> g \<and> g \<le> 255 \<and> 0 \<le> b \<and> b \<le> 255)
   \<and> generated \<lparr>q_hex = ''#FF0000'', q_r = 255, q_g = 0, q_b = 0\<rparr>
   \<and> (\<exists>a0 a1 a2 h0 h1 h2 e.
        calculateScore 1 [\<lparr>q_hex = ''#FF0000'', q_r = 255, q_g = 0, q_b = 0\<rparr>] [''GGGGGG''] =
          Inr \<lparr>avgRgbError = [Fin a0, Fin a1, Fin a2], avgHslError = [Fin h0, Fin h1, Fin h2],
               rmse = Fin e\<rparr>)"
proof -
  have l: "length ''GGGGGG'' = 6" by simp
  have d: "\<not> list_all isHexDigit ''GGGGGG''" by (simp add: isHexDigit_def digitVal_def code_def)
  have g: "generated \<lparr>q_hex = ''#FF0000'', q_r = 255, q_g = 0, q_b = 0\<rparr>" by code_simp
  have hyp: "0 < (1::nat) \<and> 1 \<le> length [\<lparr>q_hex = ''#FF0000'', q_r = 255, q_g = 0, q_b = 0\<rparr>]
      \<and> 1 \<le> length [''GGGGGG'']
      \<and> (\<forall>i<1. generated ([\<lparr>q_hex = ''#FF0000'', q_r = 255, q_g = 0, q_b = 0\<rparr>] ! i)
            \<and> length ([''GGGGGG''] ! i) = 6 \<and> \<not> list_all isHexDigit ([''GGGGGG''] ! i))"
    using g d by simp
  note t = hexToRgb_malformed_bytes [of "''GGGGGG''" 1
        "[\<lparr>q_hex = ''#FF0000'', q_r = 255, q_g = 0, q_b = 0\<rparr>]" "[''GGGGGG'']"]
  note one = t [THEN conjunct1, THEN mp, OF conjI [OF l d]]
  note two = t [THEN conjunct2, THEN conjunct1, THEN mp, OF hyp]
  show ?thesis by (intro conjI l d one g two)
qed

text \<open>
  C5 as it was claimed fails: \<^verbatim>\<open>#GGGGGG\<close> has six characters after the \<^verbatim>\<open>#\<close> and none
  is a hexadecimal digit, yet \<^verbatim>\<open>hexToRgb\<close> returns \<open>[0, 0, 0]\<close> without any \<open>NaN\<close>,
  and the score of the black question answered so is 0 throughout.
\<close>

theorem hexToRgb_malformed_counterexample:
  "length ''GGGGGG'' = 6 \<and> \<not> list_all isHexDigit ''GGGGGG''
   \<and> parseInt16 ''GGGGGG'' = NaN
   \<and> hexToRgb ''#GGGGGG'' = [Fin 0, Fin 0, Fin 0]
   \<and> NaN \<notin> set (hexToRgb ''#GGGGGG'')
   \<and> calculateScore 1 [\<lparr>q_hex = ''#000000'', q_r = 0, q_g = 0, q_b = 0\<rparr>] [''GGGGGG'']
       = Inr \<lparr>avgRgbError = [Fin 0, Fin 0, Fin 0], avgHslError = [Fin 0, Fin 0, Fin 0],
              rmse = Fin 0\<rparr>"
proof -
  have p: "parseInt16 ''GGGGGG'' = NaN" by (simp add: parse_eval)
  have h: "hexToRgb ''#GGGGGG'' = [Fin 0, Fin 0, Fin 0]" by (simp add: parse_eval)
  have b: "questionBody \<lparr>q_hex = ''#000000'', q_r = 0, q_g = 0, q_b = 0\<rparr> ''GGGGGG''
     \<lparr>totalRgbError = [Fin 0, Fin 0, Fin 0], totalHslError = [Fin 0, Fin 0, Fin 0], squaredErrors = []\<rparr>
   = \<lparr>totalRgbError = [Fin 0, Fin 0, Fin 0], totalHslError = [Fin 0, Fin 0, Fin 0],
      squaredErrors = [Fin 0, Fin 0, Fin 0]\<rparr>"
    unfolding questionBody_def
    by (simp add: h rgbToHsl_gray num_def channelStep_def hslError_def Math_min2 Let_def)
  have c: "calculateScore 1 [\<lparr>q_hex = ''#000000'', q_r = 0, q_g = 0, q_b = 0\<rparr>] [''GGGGGG'']
       = Inr \<lparr>avgRgbError = [Fin 0, Fin 0, Fin 0], avgHslError = [Fin 0, Fin 0, Fin 0],
              rmse = Fin 0\<rparr>"
    unfolding calculateScore_def scoreLoop_single b by simp
  have d: "\<not> list_all isHexDigit ''GGGGGG''" by (simp add: isHexDigit_def digitVal_def code_def)
  show ?thesis using p h c d by simp
qed

section \<open>Scoring one answer\<close>





section \<open>The score\<close>

text \<open>
  C2. The RMSE pools the squared normalised errors of all channels of all questions
  (three per question) in one list and is the square root of their mean, times 100. For
  the single question \<^verbatim>\<open>#FF0000\<close> answered \<^verbatim>\<open>00FF00\<close> the average RGB errors are
  \<open>-100\<close>, \<open>100\<close> and \<open>0\<close> per cent and the RMSE is \<open>sqrt (2 / 3) * 100\<close>, which
  \<^verbatim>\<open>toFixed(4)\<close> prints as 81.6497.
\<close>

theorem calculateScore_rmse_pooled:
  "(0 < n \<and> n \<le> length questions \<and> n \<le> length answers \<longrightarrow>
      (\<exists>rep. calculateScore n questions answers = Inr rep
         \<and> rmse rep = Fin (rmse_spec n questions answers))
      \<and> length (pooledSquaredErrors n questions answers) = 3 * n)
   \<and> calculateScore 1 [\<lparr>q_hex = ''#FF0000'', q_r = 255, q_g = 0, q_b = 0\<rparr>] [''00FF00'']
       = Inr \<lparr>avgRgbError = [Fin (- 100), Fin 100, Fin 0],
              avgHslError = [Fin (200 / 3), Fin 0, Fin 0],
              rmse = Fin (sqrt (2 / 3) * 100)\<rparr>
   \<and> toFixed 4 (sqrt (2 / 3) * 100) = 816497"
proof -
  have general: "0 < n \<and> n \<le> length questions \<and> n \<le> length answers \<longrightarrow>
      (\<exists>rep. calculateScore n questions answers = Inr rep
         \<and> rmse rep = Fin (rmse_spec n questions answers))
      \<and> length (pooledSquaredErrors n questions answers) = 3 * n"
    using calculateScore_rmse [of n questions answers]
    by (simp add: length_pooledSquaredErrors)
  show ?thesis
    by (rule conjI [OF general conjI [OF example_score example_toFixed]])
qed

theorem calculateScore_rmse_pooled_witness:
  "rmse_spec 1 [\<lparr>q_hex = ''#FF0000'', q_r = 255, q_g = 0, q_b = 0\<rparr>] [''00FF00'']
     = sqrt (2 / 3) * 100
   \<and> length (pooledSquaredErrors 1 [\<lparr>q_hex = ''#FF0000'', q_r = 255, q_g = 0, q_b = 0\<rparr>]
        [''00FF00'']) = 3"
  using calculateScore_rmse_pooled
    [of 1 "[\<lparr>q_hex = ''#FF0000'', q_r = 255, q_g = 0, q_b = 0\<rparr>]" "[''00FF00'']"]
  by auto



text \<open>
  C9. When each of the \<open>numQuestions\<close> answers is exactly the six digits of its question's
  colour code, all average RGB errors, all average HSL errors and the RMSE are 0.
\<close>

theorem calculateScore_perfect:
  assumes "0 < numQuestions" "numQuestions \<le> length questions" "numQuestions \<le> length answers"
    and "\<forall>i<numQuestions. generated (questions ! i) \<and> answers ! i = drop 1 (q_hex (questions ! i))"
  shows "calculateScore numQuestions questions answers =
    Inr \<lparr>avgRgbError = [Fin 0, Fin 0, Fin 0], avgHslError = [Fin 0, Fin 0, Fin 0], rmse = Fin 0\<rparr>"
  using assms by (rule perfect_score)

theorem calculateScore_perfect_witness:
  "generated \<lparr>q_hex = ''#FF0000'', q_r = 255, q_g = 0, q_b = 0\<rparr>
   \<and> calculateScore 1 [\<lparr>q_hex = ''#FF0000'', q_r = 255, q_g = 0, q_b = 0\<rparr>] [''FF0000''] =
    Inr \<lparr>avgRgbError = [Fin 0, Fin 0, Fin 0], avgHslError = [Fin 0, Fin 0, Fin 0], rmse = Fin 0\<rparr>"
proof -
  have "generated \<lparr>q_hex = ''#FF0000'', q_r = 255, q_g = 0, q_b = 0\<rparr>" by code_simp
  then show ?thesis
    using calculateScore_perfect
      [of 1 "[\<lparr>q_hex = ''#FF0000'', q_r = 255, q_g = 0, q_b = 0\<rparr>]" "[''FF0000'']"]
    by simp
qed

end
